theory Spec2Isabelle
  imports Complex_Main "HOL-Library.Log_Nat"
begin

section \<open>Fixed-step integrators of ODE.py\<close>

text \<open>
  The module ODE.py has three functions, \<open>Euler\<close>, \<open>RK2\<close> and \<open>RK4\<close>, each taking a
  right-hand side \<open>f(x, t)\<close>, a numpy array \<open>t\<close> of times and an initial value \<open>x0\<close>.
  An index out of range is the error value \<open>IndexError\<close>, as numpy raises it.

  The lines of the three functions are embedded twice. In the first embedding the
  arrays are lists of reals, the data model of the specification, and the right-hand side
  is a total function on the reals: it carries the results on the shape of the computation
  (which entries are read and written, in which order, with which operands), none of which
  uses a law of arithmetic. In the second embedding the arrays are lists of float64 values
  with rounding, infinities and nan: it carries the results that depend on what a sum or a
  product evaluates to.
\<close>

subsection \<open>Arrays, errors and the counting loop\<close>

datatype error = IndexError

definition bindE :: "error + 'a \<Rightarrow> ('a \<Rightarrow> error + 'b) \<Rightarrow> error + 'b" where
  "bindE r k = (case r of Inl e \<Rightarrow> Inl e | Inr v \<Rightarrow> k v)"

text \<open>\<open>a[i]\<close> for an index \<open>i \<ge> 0\<close>: numpy raises IndexError when \<open>i\<close> is not below the size.\<close>

definition getitem :: "'a list \<Rightarrow> nat \<Rightarrow> error + 'a" where
  "getitem a i = (if i < length a then Inr (a ! i) else Inl IndexError)"

text \<open>\<open>a[i] = v\<close>, the array returned updated.\<close>

definition setitem :: "'a list \<Rightarrow> nat \<Rightarrow> 'a \<Rightarrow> error + 'a list" where
  "setitem a i v = (if i < length a then Inr (a[i := v]) else Inl IndexError)"

text \<open>\<open>np.zeros(n)\<close>, on the reals.\<close>

definition zeros :: "nat \<Rightarrow> real list" where
  "zeros n = replicate n 0"

text \<open>
  \<open>for i in js: s = body(i, s)\<close>, stopping at the first error. The loops of the module run
  over \<open>range(t.size - 1)\<close>, which is \<open>[0..<length t - 1]\<close> (empty when \<open>t.size\<close> is 0 or 1).
\<close>

fun for_range :: "(nat \<Rightarrow> 's \<Rightarrow> error + 's) \<Rightarrow> nat list \<Rightarrow> 's \<Rightarrow> error + 's" where
  "for_range body [] s = Inr s"
| "for_range body (i # js) s = bindE (body i s) (for_range body js)"

subsection \<open>Euler (lines 45 to 51), on the reals\<close>

text \<open>The right-hand side of line 49, \<open>x[i] + h * f(x[i], t[i])\<close>, at \<open>xi = x[i]\<close>, \<open>ti = t[i]\<close>.\<close>

definition Euler_step :: "(real \<Rightarrow> real \<Rightarrow> real) \<Rightarrow> real \<Rightarrow> real \<Rightarrow> real \<Rightarrow> real" where
  "Euler_step f h xi ti = xi + h * f xi ti"

text \<open>Line 49: read \<open>x[i]\<close> and \<open>t[i]\<close>, store into \<open>x[i+1]\<close>.\<close>

definition Euler_body ::
  "(real \<Rightarrow> real \<Rightarrow> real) \<Rightarrow> real list \<Rightarrow> real \<Rightarrow> nat \<Rightarrow> real list \<Rightarrow> error + real list" where
  "Euler_body f t h i x =
     bindE (getitem x i) (\<lambda>xi.
     bindE (getitem t i) (\<lambda>ti.
     setitem x (i + 1) (Euler_step f h xi ti)))"

text \<open>
  Line 45 reads \<open>t[1]\<close> and \<open>t[0]\<close> before anything else; line 46 allocates \<open>x\<close>; line 47
  stores \<open>x0\<close>; lines 48 and 49 are the loop; line 51 returns \<open>x\<close>.
\<close>

definition Euler :: "(real \<Rightarrow> real \<Rightarrow> real) \<Rightarrow> real list \<Rightarrow> real \<Rightarrow> error + real list" where
  "Euler f t x0 =
     bindE (getitem t 1) (\<lambda>t1.
     bindE (getitem t 0) (\<lambda>t0.
     let h = t1 - t0 in
     bindE (setitem (zeros (length t)) 0 x0) (\<lambda>x.
     for_range (Euler_body f t h) [0..<length t - 1] x)))"

subsection \<open>RK2 (lines 78 to 86), on the reals\<close>

text \<open>Lines 82 to 84: \<open>k1\<close>, \<open>k2\<close> and the value stored into \<open>x[i+1]\<close>.\<close>

definition RK2_step :: "(real \<Rightarrow> real \<Rightarrow> real) \<Rightarrow> real \<Rightarrow> real \<Rightarrow> real \<Rightarrow> real" where
  "RK2_step f h xi ti =
     (let k1 = h * f xi ti;
          k2 = h * f (xi + k1 / 2) (ti + h / 2)
      in xi + k2)"

definition RK2_body ::
  "(real \<Rightarrow> real \<Rightarrow> real) \<Rightarrow> real list \<Rightarrow> real \<Rightarrow> nat \<Rightarrow> real list \<Rightarrow> error + real list" where
  "RK2_body f t h i x =
     bindE (getitem x i) (\<lambda>xi.
     bindE (getitem t i) (\<lambda>ti.
     setitem x (i + 1) (RK2_step f h xi ti)))"

definition RK2 :: "(real \<Rightarrow> real \<Rightarrow> real) \<Rightarrow> real list \<Rightarrow> real \<Rightarrow> error + real list" where
  "RK2 f t x0 =
     bindE (getitem t 1) (\<lambda>t1.
     bindE (getitem t 0) (\<lambda>t0.
     let h = t1 - t0 in
     bindE (setitem (zeros (length t)) 0 x0) (\<lambda>x.
     for_range (RK2_body f t h) [0..<length t - 1] x)))"

subsection \<open>RK4 (lines 113 to 123), on the reals\<close>

text \<open>Lines 117 to 121: \<open>k1\<close> to \<open>k4\<close> and the value stored into \<open>x[i+1]\<close>.\<close>

definition RK4_step :: "(real \<Rightarrow> real \<Rightarrow> real) \<Rightarrow> real \<Rightarrow> real \<Rightarrow> real \<Rightarrow> real" where
  "RK4_step f h xi ti =
     (let k1 = h * f xi ti;
          k2 = h * f (xi + k1 / 2) (ti + h / 2);
          k3 = h * f (xi + k2 / 2) (ti + h / 2);
          k4 = h * f (xi + k3) (ti + h)
      in xi + (1 / 6) * (k1 + 2 * k2 + 2 * k3 + k4))"

definition RK4_body ::
  "(real \<Rightarrow> real \<Rightarrow> real) \<Rightarrow> real list \<Rightarrow> real \<Rightarrow> nat \<Rightarrow> real list \<Rightarrow> error + real list" where
  "RK4_body f t h i x =
     bindE (getitem x i) (\<lambda>xi.
     bindE (getitem t i) (\<lambda>ti.
     setitem x (i + 1) (RK4_step f h xi ti)))"

definition RK4 :: "(real \<Rightarrow> real \<Rightarrow> real) \<Rightarrow> real list \<Rightarrow> real \<Rightarrow> error + real list" where
  "RK4 f t x0 =
     bindE (getitem t 1) (\<lambda>t1.
     bindE (getitem t 0) (\<lambda>t0.
     let h = t1 - t0 in
     bindE (setitem (zeros (length t)) 0 x0) (\<lambda>x.
     for_range (RK4_body f t h) [0..<length t - 1] x)))"

subsection \<open>float64 arithmetic\<close>

text \<open>
  The arrays of the module hold 64-bit floats. A claim that rests on a law of arithmetic
  (a product with 0 is 0, sums can be regrouped) is decided on the float64 reading of the
  same lines, so float64 is modelled here: a value is a finite real, an infinity or nan, and
  each operation computes the exact result and rounds it to the nearest float64, ties to
  the even significand, as IEEE 754 binary64 does in its default mode. Zero is not signed:
  Python compares \<open>-0.0\<close> and \<open>0.0\<close> equal, and the module never divides by a variable.
  numpy reports an overflow or an invalid operation as a warning and returns the infinity or
  nan; it raises nothing.
\<close>

datatype f64 = Fin real | PInf | NInf | NaN

text \<open>
  \<open>ilog2 r\<close> is the integer \<open>e\<close> with \<open>2^e \<le> r < 2^(e+1)\<close>, for \<open>r > 0\<close>; \<open>bitlen n\<close> is
  the number of binary digits of a positive integer \<open>n\<close>.
\<close>

definition ilog2 :: "real \<Rightarrow> int" where
  "ilog2 r = (if 1 \<le> r then bitlen \<lfloor>r\<rfloor> - 1 else - bitlen (\<lceil>1 / r\<rceil> - 1))"

text \<open>The nearest integer, the even one of the two when \<open>y\<close> lies halfway.\<close>

definition round_even :: "real \<Rightarrow> int" where
  "round_even y =
     (let n = \<lfloor>y\<rfloor>; d = y - of_int n
      in if d < 1 / 2 then n else if 1 / 2 < d then n + 1 else if even n then n else n + 1)"

text \<open>
  The exponent of the last place of \<open>r\<close>: 53 significant bits, and not below \<open>-1074\<close>, the
  exponent of the smallest subnormal.
\<close>

definition ulp_exp :: "real \<Rightarrow> int" where
  "ulp_exp r = max (ilog2 \<bar>r\<bar> - 52) (- 1074)"

definition rne :: "real \<Rightarrow> real" where
  "rne r = (if r = 0 then 0
            else of_int (round_even (r / 2 powi ulp_exp r)) * 2 powi ulp_exp r)"

text \<open>Rounding with overflow: a rounded magnitude of \<open>2^1024\<close> or more is an infinity.\<close>

definition fround :: "real \<Rightarrow> f64" where
  "fround r = (let v = rne r
               in if 2 ^ 1024 \<le> v then PInf else if v \<le> - (2 ^ 1024) then NInf else Fin v)"

fun fneg :: "f64 \<Rightarrow> f64" where
  "fneg (Fin a) = Fin (- a)"
| "fneg PInf = NInf"
| "fneg NInf = PInf"
| "fneg NaN = NaN"

fun fadd :: "f64 \<Rightarrow> f64 \<Rightarrow> f64" where
  "fadd (Fin a) (Fin b) = fround (a + b)"
| "fadd NaN y = NaN"
| "fadd x NaN = NaN"
| "fadd PInf NInf = NaN"
| "fadd NInf PInf = NaN"
| "fadd PInf y = PInf"
| "fadd NInf y = NInf"
| "fadd (Fin a) PInf = PInf"
| "fadd (Fin a) NInf = NInf"

definition fsub :: "f64 \<Rightarrow> f64 \<Rightarrow> f64" where
  "fsub x y = fadd x (fneg y)"

fun fmul :: "f64 \<Rightarrow> f64 \<Rightarrow> f64" where
  "fmul (Fin a) (Fin b) = fround (a * b)"
| "fmul NaN y = NaN"
| "fmul x NaN = NaN"
| "fmul (Fin a) PInf = (if a = 0 then NaN else if 0 < a then PInf else NInf)"
| "fmul (Fin a) NInf = (if a = 0 then NaN else if 0 < a then NInf else PInf)"
| "fmul PInf (Fin b) = (if b = 0 then NaN else if 0 < b then PInf else NInf)"
| "fmul NInf (Fin b) = (if b = 0 then NaN else if 0 < b then NInf else PInf)"
| "fmul PInf PInf = PInf"
| "fmul PInf NInf = NInf"
| "fmul NInf PInf = NInf"
| "fmul NInf NInf = PInf"

text \<open>\<open>x / 2\<close>, the only division by a float in the module (\<open>k1/2\<close>, \<open>k2/2\<close>, \<open>h/2\<close>).\<close>

fun fdiv2 :: "f64 \<Rightarrow> f64" where
  "fdiv2 (Fin a) = fround (a / 2)"
| "fdiv2 PInf = PInf"
| "fdiv2 NInf = NInf"
| "fdiv2 NaN = NaN"

fun is_fin :: "f64 \<Rightarrow> bool" where
  "is_fin (Fin a) = True"
| "is_fin x = False"

text \<open>A finite value is a float64 when rounding leaves it unchanged.\<close>

fun valid :: "f64 \<Rightarrow> bool" where
  "valid (Fin a) = (fround a = Fin a)"
| "valid x = True"

text \<open>\<open>np.zeros(n)\<close> as float64.\<close>

definition zeros_f64 :: "nat \<Rightarrow> f64 list" where
  "zeros_f64 n = replicate n (Fin 0)"

subsection \<open>Euler, RK2 and RK4 in float64\<close>

text \<open>
  The same lines as above with every operation in float64. In line 121 the Python
  expression \<open>1/6\<close> is the float nearest to one sixth, \<open>2*k2\<close> and \<open>2*k3\<close> are float products,
  and the sum is taken from left to right.
\<close>

definition Euler_step_f64 :: "(f64 \<Rightarrow> f64 \<Rightarrow> f64) \<Rightarrow> f64 \<Rightarrow> f64 \<Rightarrow> f64 \<Rightarrow> f64" where
  "Euler_step_f64 f h xi ti = fadd xi (fmul h (f xi ti))"

definition Euler_body_f64 ::
  "(f64 \<Rightarrow> f64 \<Rightarrow> f64) \<Rightarrow> f64 list \<Rightarrow> f64 \<Rightarrow> nat \<Rightarrow> f64 list \<Rightarrow> error + f64 list" where
  "Euler_body_f64 f t h i x =
     bindE (getitem x i) (\<lambda>xi.
     bindE (getitem t i) (\<lambda>ti.
     setitem x (i + 1) (Euler_step_f64 f h xi ti)))"

definition Euler_f64 :: "(f64 \<Rightarrow> f64 \<Rightarrow> f64) \<Rightarrow> f64 list \<Rightarrow> f64 \<Rightarrow> error + f64 list" where
  "Euler_f64 f t x0 =
     bindE (getitem t 1) (\<lambda>t1.
     bindE (getitem t 0) (\<lambda>t0.
     let h = fsub t1 t0 in
     bindE (setitem (zeros_f64 (length t)) 0 x0) (\<lambda>x.
     for_range (Euler_body_f64 f t h) [0..<length t - 1] x)))"

definition RK2_step_f64 :: "(f64 \<Rightarrow> f64 \<Rightarrow> f64) \<Rightarrow> f64 \<Rightarrow> f64 \<Rightarrow> f64 \<Rightarrow> f64" where
  "RK2_step_f64 f h xi ti =
     (let k1 = fmul h (f xi ti);
          k2 = fmul h (f (fadd xi (fdiv2 k1)) (fadd ti (fdiv2 h)))
      in fadd xi k2)"

definition RK2_body_f64 ::
  "(f64 \<Rightarrow> f64 \<Rightarrow> f64) \<Rightarrow> f64 list \<Rightarrow> f64 \<Rightarrow> nat \<Rightarrow> f64 list \<Rightarrow> error + f64 list" where
  "RK2_body_f64 f t h i x =
     bindE (getitem x i) (\<lambda>xi.
     bindE (getitem t i) (\<lambda>ti.
     setitem x (i + 1) (RK2_step_f64 f h xi ti)))"

definition RK2_f64 :: "(f64 \<Rightarrow> f64 \<Rightarrow> f64) \<Rightarrow> f64 list \<Rightarrow> f64 \<Rightarrow> error + f64 list" where
  "RK2_f64 f t x0 =
     bindE (getitem t 1) (\<lambda>t1.
     bindE (getitem t 0) (\<lambda>t0.
     let h = fsub t1 t0 in
     bindE (setitem (zeros_f64 (length t)) 0 x0) (\<lambda>x.
     for_range (RK2_body_f64 f t h) [0..<length t - 1] x)))"

definition RK4_step_f64 :: "(f64 \<Rightarrow> f64 \<Rightarrow> f64) \<Rightarrow> f64 \<Rightarrow> f64 \<Rightarrow> f64 \<Rightarrow> f64" where
  "RK4_step_f64 f h xi ti =
     (let k1 = fmul h (f xi ti);
          k2 = fmul h (f (fadd xi (fdiv2 k1)) (fadd ti (fdiv2 h)));
          k3 = fmul h (f (fadd xi (fdiv2 k2)) (fadd ti (fdiv2 h)));
          k4 = fmul h (f (fadd xi k3) (fadd ti h))
      in fadd xi (fmul (fround (1 / 6))
                   (fadd (fadd (fadd k1 (fmul (Fin 2) k2)) (fmul (Fin 2) k3)) k4)))"

definition RK4_body_f64 ::
  "(f64 \<Rightarrow> f64 \<Rightarrow> f64) \<Rightarrow> f64 list \<Rightarrow> f64 \<Rightarrow> nat \<Rightarrow> f64 list \<Rightarrow> error + f64 list" where
  "RK4_body_f64 f t h i x =
     bindE (getitem x i) (\<lambda>xi.
     bindE (getitem t i) (\<lambda>ti.
     setitem x (i + 1) (RK4_step_f64 f h xi ti)))"

definition RK4_f64 :: "(f64 \<Rightarrow> f64 \<Rightarrow> f64) \<Rightarrow> f64 list \<Rightarrow> f64 \<Rightarrow> error + f64 list" where
  "RK4_f64 f t x0 =
     bindE (getitem t 1) (\<lambda>t1.
     bindE (getitem t 0) (\<lambda>t0.
     let h = fsub t1 t0 in
     bindE (setitem (zeros_f64 (length t)) 0 x0) (\<lambda>x.
     for_range (RK4_body_f64 f t h) [0..<length t - 1] x)))"

subsection \<open>Right-hand sides used as test inputs\<close>

text \<open>The constant right-hand side \<open>f(x, t) = c\<close>.\<close>

definition const_rhs :: "real \<Rightarrow> real \<Rightarrow> real \<Rightarrow> real" where
  "const_rhs c x t = c"

text \<open>A right-hand side that depends on both arguments, \<open>f(x, t) = x + t\<close>.\<close>

definition sum_rhs :: "real \<Rightarrow> real \<Rightarrow> real" where
  "sum_rhs x t = x + t"

text \<open>The constant right-hand side in float64.\<close>

definition const_rhs_f64 :: "f64 \<Rightarrow> f64 \<Rightarrow> f64 \<Rightarrow> f64" where
  "const_rhs_f64 c x t = c"



subsection \<open>The shared skeleton\<close>

text \<open>
  The three functions differ only in the value stored into \<open>x[i+1]\<close>. For the proofs the
  common skeleton is named once for each embedding, with that value as a parameter \<open>g\<close> of
  \<open>x[i]\<close> and \<open>t[i]\<close>.
\<close>

definition step_body ::
  "('a \<Rightarrow> 'a \<Rightarrow> 'a) \<Rightarrow> 'a list \<Rightarrow> nat \<Rightarrow> 'a list \<Rightarrow> error + 'a list" where
  "step_body g t i x =
     bindE (getitem x i) (\<lambda>xi.
     bindE (getitem t i) (\<lambda>ti.
     setitem x (i + 1) (g xi ti)))"

definition integrate ::
  "(real \<Rightarrow> real \<Rightarrow> real \<Rightarrow> real) \<Rightarrow> real list \<Rightarrow> real \<Rightarrow> error + real list" where
  "integrate stp t x0 =
     bindE (getitem t 1) (\<lambda>t1.
     bindE (getitem t 0) (\<lambda>t0.
     let h = t1 - t0 in
     bindE (setitem (zeros (length t)) 0 x0) (\<lambda>x.
     for_range (step_body (stp h) t) [0..<length t - 1] x)))"

definition integrate_f64 ::
  "(f64 \<Rightarrow> f64 \<Rightarrow> f64 \<Rightarrow> f64) \<Rightarrow> f64 list \<Rightarrow> f64 \<Rightarrow> error + f64 list" where
  "integrate_f64 stp t x0 =
     bindE (getitem t 1) (\<lambda>t1.
     bindE (getitem t 0) (\<lambda>t0.
     let h = fsub t1 t0 in
     bindE (setitem (zeros_f64 (length t)) 0 x0) (\<lambda>x.
     for_range (step_body (stp h) t) [0..<length t - 1] x)))"

lemma Euler_body_step: "Euler_body f t h = step_body (Euler_step f h) t"
  by (intro ext) (simp add: Euler_body_def step_body_def)

lemma Euler_integrate: "Euler f t x0 = integrate (Euler_step f) t x0"
  by (simp add: Euler_def integrate_def Euler_body_step)

lemma RK2_body_step: "RK2_body f t h = step_body (RK2_step f h) t"
  by (intro ext) (simp add: RK2_body_def step_body_def)

lemma RK2_integrate: "RK2 f t x0 = integrate (RK2_step f) t x0"
  by (simp add: RK2_def integrate_def RK2_body_step)

lemma RK4_body_step: "RK4_body f t h = step_body (RK4_step f h) t"
  by (intro ext) (simp add: RK4_body_def step_body_def)

lemma RK4_integrate: "RK4 f t x0 = integrate (RK4_step f) t x0"
  by (simp add: RK4_def integrate_def RK4_body_step)

lemma bindE_Inr [simp]: "bindE (Inr v) k = k v"
  by (simp add: bindE_def)

lemma bindE_Inl [simp]: "bindE (Inl e) k = Inl e"
  by (simp add: bindE_def)

lemma for_range_append:
  "for_range body (js @ ks) s = bindE (for_range body js s) (for_range body ks)"
proof (induction js arbitrary: s)
  case Nil
  show ?case by simp
next
  case (Cons j js)
  show ?case
    by (cases "body j s") (simp_all add: Cons.IH)
qed

text \<open>
  Loop invariant: after the iterations \<open>0, ..., k-1\<close> on an array as long as \<open>t\<close>, nothing
  has failed, the array has kept its length and its entry 0, the entries \<open>1, ..., k\<close> obey
  the recurrence, and the entries after \<open>k\<close> are untouched.
\<close>

lemma step_loop_invariant:
  assumes "length x = length t" and "Suc k \<le> length t"
  shows "\<exists>x'. for_range (step_body g t) [0..<k] x = Inr x'
           \<and> length x' = length t \<and> x' ! 0 = x ! 0
           \<and> (\<forall>i<k. x' ! Suc i = g (x' ! i) (t ! i))
           \<and> (\<forall>j. k < j \<longrightarrow> x' ! j = x ! j)"
  using assms(2)
proof (induction k)
  case 0
  show ?case using assms(1) by simp
next
  case (Suc k)
  then obtain x' where run: "for_range (step_body g t) [0..<k] x = Inr x'"
    and len: "length x' = length t" and first: "x' ! 0 = x ! 0"
    and rec: "\<forall>i<k. x' ! Suc i = g (x' ! i) (t ! i)"
    and rest: "\<forall>j. k < j \<longrightarrow> x' ! j = x ! j"
    by auto
  let ?y = "x'[Suc k := g (x' ! k) (t ! k)]"
  from Suc.prems len have body: "step_body g t k x' = Inr ?y"
    by (simp add: step_body_def getitem_def setitem_def)
  have "for_range (step_body g t) [0..<Suc k] x = Inr ?y"
    using run body by (simp add: for_range_append)
  moreover have "length ?y = length t" using len by simp
  moreover have "?y ! 0 = x ! 0" using first by simp
  moreover have "\<forall>i<Suc k. ?y ! Suc i = g (?y ! i) (t ! i)"
  proof (intro allI impI)
    fix i assume "i < Suc k"
    show "?y ! Suc i = g (?y ! i) (t ! i)"
    proof (cases "i = k")
      case True
      with Suc.prems len show ?thesis by simp
    next
      case False
      with \<open>i < Suc k\<close> have "i < k" by simp
      with rec show ?thesis by simp
    qed
  qed
  moreover have "\<forall>j. Suc k < j \<longrightarrow> ?y ! j = x ! j"
    using rest by simp
  ultimately show ?case by blast
qed

text \<open>What a call returns on a grid of at least two points.\<close>

lemma integrate_returns:
  assumes "2 \<le> length t"
  shows "\<exists>xs. integrate stp t x0 = Inr xs \<and> length xs = length t \<and> xs ! 0 = x0
           \<and> (\<forall>i. Suc i < length t \<longrightarrow> xs ! Suc i = stp (t ! 1 - t ! 0) (xs ! i) (t ! i))"
proof -
  let ?x = "(zeros (length t))[0 := x0]"
  have len: "length ?x = length t" by (simp add: zeros_def)
  have k: "Suc (length t - 1) \<le> length t" using assms by simp
  from step_loop_invariant [OF len k, of "stp (t ! 1 - t ! 0)"]
  obtain xs where run: "for_range (step_body (stp (t ! 1 - t ! 0)) t) [0..<length t - 1] ?x = Inr xs"
    and l: "length xs = length t" and f: "xs ! 0 = ?x ! 0"
    and r: "\<forall>i<length t - 1. xs ! Suc i = stp (t ! 1 - t ! 0) (xs ! i) (t ! i)"
    by blast
  have "integrate stp t x0 = Inr xs"
    using assms run by (auto simp add: integrate_def getitem_def setitem_def zeros_def)
  moreover have "xs ! 0 = x0" using f assms by (cases t) (simp_all add: zeros_def)
  moreover have "\<forall>i. Suc i < length t \<longrightarrow> xs ! Suc i = stp (t ! 1 - t ! 0) (xs ! i) (t ! i)"
    using r by (simp add: less_diff_conv)
  ultimately show ?thesis using l by blast
qed

text \<open>What a call does on a grid of fewer than two points: line 45 raises.\<close>

lemma integrate_raises:
  assumes "length t < 2"
  shows "integrate stp t x0 = Inl IndexError"
  using assms by (simp add: integrate_def getitem_def)

text \<open>
  Entry \<open>i\<close> of the result is computed from \<open>x0\<close>, the step \<open>t[1] - t[0]\<close> and the grid
  entries before \<open>i\<close>: two grids that agree there give the same entry.
\<close>

lemma integrate_agree:
  assumes "2 \<le> length u" and "2 \<le> length v" and "u ! 0 = v ! 0" and "u ! 1 = v ! 1"
    and "integrate stp u x0 = Inr xs" and "integrate stp v x0 = Inr ys"
  shows "i < length u \<Longrightarrow> i < length v \<Longrightarrow> (\<forall>j<i. u ! j = v ! j) \<Longrightarrow> xs ! i = ys ! i"
proof (induction i)
  case 0
  from integrate_returns [OF assms(1), of stp x0] integrate_returns [OF assms(2), of stp x0]
  show ?case using assms(5,6) by auto
next
  case (Suc i)
  from integrate_returns [OF assms(1), of stp x0] assms(5) Suc.prems(1)
  have a: "xs ! Suc i = stp (u ! 1 - u ! 0) (xs ! i) (u ! i)" by auto
  from integrate_returns [OF assms(2), of stp x0] assms(6) Suc.prems(2)
  have b: "ys ! Suc i = stp (v ! 1 - v ! 0) (ys ! i) (v ! i)" by auto
  have "xs ! i = ys ! i" using Suc by simp
  moreover have "u ! i = v ! i" using Suc.prems(3) by simp
  ultimately show ?case using a b assms(3,4) by simp
qed

lemma integrate_agree_upto:
  assumes "max (i + 1) 2 \<le> length u" and "max (i + 1) 2 \<le> length v"
    and "\<forall>j\<le>max (i - 1) 1. u ! j = v ! j"
  shows "\<exists>xs ys. integrate stp u x0 = Inr xs \<and> integrate stp v x0 = Inr ys
           \<and> (\<forall>j\<le>i. xs ! j = ys ! j)"
proof -
  have lu: "2 \<le> length u" and lv: "2 \<le> length v" using assms(1,2) by simp_all
  from integrate_returns [OF lu, of stp x0] obtain xs where xs: "integrate stp u x0 = Inr xs"
    by blast
  from integrate_returns [OF lv, of stp x0] obtain ys where ys: "integrate stp v x0 = Inr ys"
    by blast
  have u0: "u ! 0 = v ! 0" and u1: "u ! 1 = v ! 1" using assms(3) by simp_all
  have "xs ! j = ys ! j" if "j \<le> i" for j
  proof (rule integrate_agree [OF lu lv u0 u1 xs ys])
    show "j < length u" using that assms(1) by simp
    show "j < length v" using that assms(2) by simp
    show "\<forall>k<j. u ! k = v ! k" using that assms(3) by auto
  qed
  with xs ys show ?thesis by blast
qed

text \<open>The last point of a grid of at least three points is never read.\<close>

lemma integrate_last_point:
  assumes "3 \<le> length t"
  shows "integrate stp (t[length t - 1 := z]) x0 = integrate stp t x0"
proof -
  let ?u = "t[length t - 1 := z]"
  let ?i = "length t - 1"
  have a: "max (?i + 1) 2 \<le> length ?u" and b: "max (?i + 1) 2 \<le> length t"
    using assms by simp_all
  have c: "\<forall>j\<le>max (?i - 1) 1. ?u ! j = t ! j" using assms by auto
  from integrate_agree_upto [OF a b c, of stp x0]
  obtain xs ys where xs: "integrate stp ?u x0 = Inr xs" and ys: "integrate stp t x0 = Inr ys"
    and eq: "\<forall>j\<le>?i. xs ! j = ys ! j"
    by blast
  have l2: "2 \<le> length t" and l2u: "2 \<le> length ?u" using assms by simp_all
  have lx: "length xs = length t"
    using integrate_returns [OF l2u, of stp x0] xs by auto
  have ly: "length ys = length t"
    using integrate_returns [OF l2, of stp x0] ys by auto
  have "xs = ys"
  proof (rule nth_equalityI)
    show "length xs = length ys" using lx ly by simp
    fix j assume "j < length xs"
    then have "j \<le> ?i" using lx by simp
    with eq show "xs ! j = ys ! j" by blast
  qed
  with xs ys show ?thesis by simp
qed

subsection \<open>The float64 embedding: the skeleton\<close>

lemma Euler_body_f64_step: "Euler_body_f64 f t h = step_body (Euler_step_f64 f h) t"
  by (intro ext) (simp add: Euler_body_f64_def step_body_def)

lemma Euler_f64_integrate: "Euler_f64 f t x0 = integrate_f64 (Euler_step_f64 f) t x0"
  by (simp add: Euler_f64_def integrate_f64_def Euler_body_f64_step)

lemma RK2_body_f64_step: "RK2_body_f64 f t h = step_body (RK2_step_f64 f h) t"
  by (intro ext) (simp add: RK2_body_f64_def step_body_def)

lemma RK2_f64_integrate: "RK2_f64 f t x0 = integrate_f64 (RK2_step_f64 f) t x0"
  by (simp add: RK2_f64_def integrate_f64_def RK2_body_f64_step)

lemma RK4_body_f64_step: "RK4_body_f64 f t h = step_body (RK4_step_f64 f h) t"
  by (intro ext) (simp add: RK4_body_f64_def step_body_def)

lemma RK4_f64_integrate: "RK4_f64 f t x0 = integrate_f64 (RK4_step_f64 f) t x0"
  by (simp add: RK4_f64_def integrate_f64_def RK4_body_f64_step)

lemma integrate_f64_returns:
  assumes "2 \<le> length t"
  shows "\<exists>xs. integrate_f64 stp t x0 = Inr xs \<and> length xs = length t \<and> xs ! 0 = x0
           \<and> (\<forall>i. Suc i < length t \<longrightarrow>
                 xs ! Suc i = stp (fsub (t ! 1) (t ! 0)) (xs ! i) (t ! i))"
proof -
  let ?x = "(zeros_f64 (length t))[0 := x0]"
  let ?h = "fsub (t ! 1) (t ! 0)"
  have len: "length ?x = length t" by (simp add: zeros_f64_def)
  have k: "Suc (length t - 1) \<le> length t" using assms by simp
  from step_loop_invariant [OF len k, of "stp ?h"]
  obtain xs where run: "for_range (step_body (stp ?h) t) [0..<length t - 1] ?x = Inr xs"
    and l: "length xs = length t" and f: "xs ! 0 = ?x ! 0"
    and r: "\<forall>i<length t - 1. xs ! Suc i = stp ?h (xs ! i) (t ! i)"
    by blast
  have "integrate_f64 stp t x0 = Inr xs"
    using assms run by (auto simp add: integrate_f64_def getitem_def setitem_def zeros_f64_def)
  moreover have "xs ! 0 = x0" using f assms by (cases t) (simp_all add: zeros_f64_def)
  moreover have "\<forall>i. Suc i < length t \<longrightarrow> xs ! Suc i = stp ?h (xs ! i) (t ! i)"
    using r by (simp add: less_diff_conv)
  ultimately show ?thesis using l by blast
qed

lemma integrate_f64_fixed:
  assumes "2 \<le> length t" and "\<And>s. stp (fsub (t ! 1) (t ! 0)) x0 s = x0"
  shows "integrate_f64 stp t x0 = Inr (replicate (length t) x0)"
proof -
  from integrate_f64_returns [OF assms(1), of stp x0]
  obtain xs where run: "integrate_f64 stp t x0 = Inr xs" and len: "length xs = length t"
    and first: "xs ! 0 = x0"
    and rec: "\<forall>i. Suc i < length t \<longrightarrow>
                xs ! Suc i = stp (fsub (t ! 1) (t ! 0)) (xs ! i) (t ! i)"
    by blast
  have entry: "i < length t \<Longrightarrow> xs ! i = x0" for i
  proof (induction i)
    case 0
    show ?case using first by simp
  next
    case (Suc i)
    then show ?case using rec assms(2) by simp
  qed
  have "xs = replicate (length t) x0"
    by (rule nth_equalityI) (simp_all add: len entry)
  with run show ?thesis by simp
qed


subsection \<open>The float64 embedding: rounding\<close>

text \<open>\<open>ilog2\<close> is the binary exponent: it is the only \<open>e\<close> with \<open>2^e \<le> r < 2^(e+1)\<close>.\<close>

lemma powi2_pos: "0 < (2::real) powi e"
  by (simp add: zero_less_power_int)

lemma powi2_less_iff: "(2::real) powi a < 2 powi b \<longleftrightarrow> a < b"
proof
  assume "(2::real) powi a < 2 powi b"
  show "a < b"
  proof (rule ccontr)
    assume "\<not> a < b"
    then have "b \<le> a" by simp
    then have "(2::real) powi b \<le> 2 powi a" by (intro power_int_increasing) simp_all
    with \<open>(2::real) powi a < 2 powi b\<close> show False by simp
  qed
next
  assume "a < b"
  then show "(2::real) powi a < 2 powi b" by (intro power_int_strict_increasing) simp_all
qed

lemma powi2_unique:
  assumes "(2::real) powi a \<le> r" "r < 2 powi (a + 1)" "2 powi b \<le> r" "r < 2 powi (b + 1)"
  shows "a = b"
proof -
  have "(2::real) powi a < 2 powi (b + 1)" using assms by linarith
  then have "a < b + 1" by (simp add: powi2_less_iff)
  moreover have "(2::real) powi b < 2 powi (a + 1)" using assms by linarith
  then have "b < a + 1" by (simp add: powi2_less_iff)
  ultimately show ?thesis by simp
qed

lemma ilog2_bounds:
  assumes "0 < r"
  shows "2 powi ilog2 r \<le> r \<and> r < 2 powi (ilog2 r + 1)"
proof (cases "1 \<le> r")
  case True
  define n where "n = nat \<lfloor>r\<rfloor>"
  have n1: "0 < n" using True by (simp add: n_def)
  have nr: "real n \<le> r" "r < real n + 1" using True by (simp_all add: n_def)
  from floorlog_bounds [of n 2] n1
  have b: "2 ^ (floorlog 2 n - 1) \<le> n" "n < 2 ^ floorlog 2 n" by simp_all
  have fl: "0 < floorlog 2 n" using n1 by (simp add: floorlog_eq_zero_iff Suc_le_eq not_le flip: neq0_conv)
  have il: "ilog2 r = int (floorlog 2 n - 1)" using True fl by (simp add: ilog2_def bitlen_def n_def)
  have "(2::real) powi ilog2 r = 2 ^ (floorlog 2 n - 1)"
    unfolding il by (simp add: power_int_of_nat)
  also have "\<dots> \<le> real n" using b(1) by (metis of_nat_le_iff of_nat_numeral of_nat_power)
  finally have lo: "(2::real) powi ilog2 r \<le> r" using nr by simp
  have "ilog2 r + 1 = int (floorlog 2 n)" using il fl by simp
  then have "(2::real) powi (ilog2 r + 1) = 2 ^ floorlog 2 n"
    by (simp add: power_int_of_nat)
  moreover have "real n + 1 \<le> 2 ^ floorlog 2 n"
  proof -
    from b(2) have "n + 1 \<le> 2 ^ floorlog 2 n" by simp
    then have "real (n + 1) \<le> real (2 ^ floorlog 2 n)" by (rule of_nat_mono)
    then show ?thesis by simp
  qed
  ultimately have "r < 2 powi (ilog2 r + 1)" using nr by simp
  with lo show ?thesis by simp
next
  case False
  define q where "q = 1 / r"
  have q1: "1 < q" using False assms by (simp add: q_def)
  define m where "m = nat (\<lceil>q\<rceil> - 1)"
  have cq: "2 \<le> \<lceil>q\<rceil>" using q1 by linarith
  have m1: "0 < m" using cq by (simp add: m_def)
  have mq: "real m < q" "q \<le> real m + 1"
    using cq by (simp_all add: m_def) linarith+
  from floorlog_bounds [of m 2] m1
  have b: "2 ^ (floorlog 2 m - 1) \<le> m" "m < 2 ^ floorlog 2 m" by simp_all
  have fl: "0 < floorlog 2 m" using m1 by (simp add: floorlog_eq_zero_iff Suc_le_eq not_le flip: neq0_conv)
  have il: "ilog2 r = - int (floorlog 2 m)" using False by (simp add: ilog2_def bitlen_def m_def q_def)
  have up: "q \<le> 2 ^ floorlog 2 m"
  proof -
    from b(2) have "m + 1 \<le> 2 ^ floorlog 2 m" by simp
    then have "real (m + 1) \<le> real (2 ^ floorlog 2 m)" by (rule of_nat_mono)
    then show ?thesis using mq by simp
  qed
  have low: "2 ^ (floorlog 2 m - 1) < q"
  proof -
    from b(1) have "(2::real) ^ (floorlog 2 m - 1) \<le> real m"
      by (metis of_nat_le_iff of_nat_numeral of_nat_power)
    then show ?thesis using mq by linarith
  qed
  have r_eq: "r = 1 / q" using assms by (simp add: q_def)
  have "(2::real) powi ilog2 r = 1 / 2 ^ floorlog 2 m"
    unfolding il by (simp add: power_int_minus power_int_of_nat field_simps)
  also have "\<dots> \<le> 1 / q" using up q1 by (intro divide_left_mono) simp_all
  finally have lo: "(2::real) powi ilog2 r \<le> r" using r_eq by simp
  have "ilog2 r + 1 = - int (floorlog 2 m - 1)" using il fl by simp
  then have "(2::real) powi (ilog2 r + 1) = 1 / 2 ^ (floorlog 2 m - 1)"
    by (simp add: power_int_minus power_int_of_nat field_simps)
  moreover have "1 / q < 1 / 2 ^ (floorlog 2 m - 1)"
    using low q1 by (intro divide_strict_left_mono) simp_all
  ultimately have "r < 2 powi (ilog2 r + 1)" using r_eq by simp
  with lo show ?thesis by simp
qed

lemma ilog2_eq:
  assumes "2 powi e \<le> r" and "r < 2 powi (e + 1)"
  shows "ilog2 r = e"
proof -
  have "0 < r" using assms(1) powi2_pos [of e] by linarith
  from ilog2_bounds [OF this] assms show ?thesis
    by (intro powi2_unique [of "ilog2 r" r e]) simp_all
qed

lemma round_even_near:
  assumes "\<bar>y - of_int m\<bar> < 1 / 2"
  shows "round_even y = m"
proof -
  have "\<lfloor>y\<rfloor> = m \<or> \<lfloor>y\<rfloor> = m - 1" using assms by linarith
  then show ?thesis
  proof
    assume "\<lfloor>y\<rfloor> = m"
    moreover have "y - of_int m < 1 / 2" using assms by linarith
    ultimately show ?thesis by (simp add: round_even_def)
  next
    assume f: "\<lfloor>y\<rfloor> = m - 1"
    then have "of_int m - 1 \<le> y" "y < of_int m" by linarith+
    moreover have "of_int m - 1 / 2 < y" using assms by linarith
    ultimately show ?thesis using f by (simp add: round_even_def Let_def)
  qed
qed



lemma ulp_exp_eq:
  assumes "2 powi e \<le> \<bar>r\<bar>" and "\<bar>r\<bar> < 2 powi (e + 1)"
  shows "ulp_exp r = max (e - 52) (- 1074)"
  using ilog2_eq [OF assms] by (simp add: ulp_exp_def)

lemma rne_eq:
  assumes "2 powi e \<le> \<bar>r\<bar>" and "\<bar>r\<bar> < 2 powi (e + 1)"
    and "round_even (r / 2 powi max (e - 52) (- 1074)) = m"
  shows "rne r = of_int m * 2 powi max (e - 52) (- 1074)"
proof -
  have "r \<noteq> 0" using assms(1) powi2_pos [of e] by linarith
  then show ?thesis using ulp_exp_eq [OF assms(1,2)] assms(3) by (simp add: rne_def)
qed

lemma fround_0: "fround 0 = Fin 0"
  by (simp add: fround_def rne_def)

text \<open>
  The roundings that the theorems below evaluate. Each is \<open>rne_eq\<close> at the binary exponent
  of the argument, with the nearest integer multiple of the last place.
\<close>

lemma fround_1: "fround 1 = Fin 1"
proof -
  have "rne 1 = of_int (2 ^ 52) * 2 powi max (0 - 52) (- 1074)"
    by (rule rne_eq, simp_all add: power_int_minus, rule round_even_near, simp)
  then show ?thesis by (simp add: fround_def power_int_minus)
qed




lemma fround_7: "fround 7 = Fin 7"
proof -
  have "rne 7 = of_int (7 * 2 ^ 50) * 2 powi max (2 - 52) (- 1074)"
    by (rule rne_eq, simp_all add: power_int_minus, rule round_even_near, simp)
  then show ?thesis by (simp add: fround_def power_int_minus)
qed

lemma fround_sixth: "fround (1 / 6) = Fin (6004799503160661 / 2 ^ 55)"
proof -
  have "rne (1 / 6) = of_int 6004799503160661 * 2 powi max (- 3 - 52) (- 1074)"
    by (rule rne_eq, simp_all add: power_int_minus, rule round_even_near, simp)
  then show ?thesis by (simp add: fround_def power_int_minus)
qed
















lemma fround_2p1023: "fround (2 ^ 1023) = Fin (2 ^ 1023)"
proof -
  have "rne (2 ^ 1023) = of_int (2 ^ 52) * 2 powi max (1023 - 52) (- 1074)"
    by (rule rne_eq, simp_all add: power_int_minus, rule round_even_near, simp)
  then show ?thesis by (simp add: fround_def)
qed

lemma fround_m2p1023: "fround (- (2 ^ 1023)) = Fin (- (2 ^ 1023))"
proof -
  have "rne (- (2 ^ 1023)) = of_int (- (2 ^ 52)) * 2 powi max (1023 - 52) (- 1074)"
    by (rule rne_eq, simp_all add: power_int_minus, rule round_even_near, simp)
  then show ?thesis by (simp add: fround_def)
qed

lemma fround_2p1024: "fround (2 ^ 1024) = PInf"
proof -
  have "rne (2 ^ 1024) = of_int (2 ^ 52) * 2 powi max (1024 - 52) (- 1074)"
    by (rule rne_eq, simp_all add: power_int_minus, rule round_even_near, simp)
  then show ?thesis by (simp add: fround_def)
qed



subsection \<open>The float64 embedding: sums and products with zero\<close>

lemma fadd_zero: "valid x \<Longrightarrow> fadd x (Fin 0) = x"
  by (cases x) simp_all


lemma fmul_zero_right: "is_fin h \<Longrightarrow> fmul h (Fin 0) = Fin 0"
  by (cases h) (simp_all add: fround_0)

lemma fdiv2_zero: "fdiv2 (Fin 0) = Fin 0"
  by (simp add: fround_0)



lemma zero_rhs_steps:
  assumes "is_fin h" and "valid x0"
  shows "Euler_step_f64 (\<lambda>x t. Fin 0) h x0 s = x0"
    and "RK2_step_f64 (\<lambda>x t. Fin 0) h x0 s = x0"
    and "RK4_step_f64 (\<lambda>x t. Fin 0) h x0 s = x0"
proof -
  have k: "fmul h (Fin 0) = Fin 0" using assms(1) by (rule fmul_zero_right)
  have x: "fadd x0 (Fin 0) = x0" using assms(2) by (rule fadd_zero)
  show "Euler_step_f64 (\<lambda>x t. Fin 0) h x0 s = x0"
    by (simp add: Euler_step_f64_def k x)
  show "RK2_step_f64 (\<lambda>x t. Fin 0) h x0 s = x0"
    by (simp add: RK2_step_f64_def k x)
  show "RK4_step_f64 (\<lambda>x t. Fin 0) h x0 s = x0"
    by (simp add: RK4_step_f64_def k x fround_sixth fround_0)
qed



section \<open>The claims\<close>

subsection \<open>C1: degenerate grids\<close>

text \<open>
  C1, as stated: on a grid of length 1 each integrator returns \<open>[x0]\<close>, on a grid of length
  0 the empty sequence, and the call never fails. The code reads \<open>t[1]\<close> on its first line,
  so both calls raise IndexError: here Euler on the grids \<open>[5]\<close> and \<open>[]\<close>.
\<close>

theorem degenerate_grid_counterexample:
  "Euler (const_rhs 1) [5] 7 = Inl IndexError \<and> Euler (const_rhs 1) [] 7 = Inl IndexError"
  by (simp add: Euler_def getitem_def)

text \<open>
  C1, amended: on a grid of length 0 or 1, each of Euler, RK2 and RK4 raises IndexError
  (at the read of \<open>t[1]\<close>) and returns no sequence, for every right-hand side and every
  initial value.
\<close>

theorem degenerate_grid_raises:
  assumes "length t < 2"
  shows "Euler f t x0 = Inl IndexError \<and> RK2 f t x0 = Inl IndexError
           \<and> RK4 f t x0 = Inl IndexError"
  using assms by (simp add: Euler_integrate RK2_integrate RK4_integrate integrate_raises)

theorem degenerate_grid_raises_witness:
  "length [5 :: real] < 2 \<and> Euler sum_rhs [5] 7 = Inl IndexError
     \<and> RK2 sum_rhs [5] 7 = Inl IndexError \<and> RK4 sum_rhs [5] 7 = Inl IndexError"
  using degenerate_grid_raises [of "[5]" sum_rhs 7] by simp

subsection \<open>C2: the Euler recurrence\<close>

text \<open>
  C2: on a grid \<open>t\<close> of length \<open>N \<ge> 2\<close>, \<open>Euler f t x0\<close> returns a sequence \<open>x\<close> of length
  \<open>N\<close> with \<open>x[0] = x0\<close> and \<open>x[i+1] = x[i] + h * f(x[i], t[i])\<close> for every \<open>i\<close> from 0 to
  \<open>N-2\<close>, where \<open>h = t[1] - t[0]\<close> whatever the spacing of the later points.
\<close>

theorem Euler_recurrence:
  assumes "2 \<le> length t"
  shows "\<exists>x. Euler f t x0 = Inr x \<and> length x = length t \<and> x ! 0 = x0
           \<and> (\<forall>i\<le>length t - 2. x ! (i + 1) = x ! i + (t ! 1 - t ! 0) * f (x ! i) (t ! i))"
proof -
  from integrate_returns [OF assms, of "Euler_step f" x0]
  obtain x where "Euler f t x0 = Inr x" and "length x = length t" and "x ! 0 = x0"
    and rec: "\<forall>i. Suc i < length t \<longrightarrow> x ! Suc i = Euler_step f (t ! 1 - t ! 0) (x ! i) (t ! i)"
    by (auto simp add: Euler_integrate)
  moreover have "x ! (i + 1) = x ! i + (t ! 1 - t ! 0) * f (x ! i) (t ! i)"
    if "i \<le> length t - 2" for i
  proof -
    from that assms have "Suc i < length t" by simp
    with rec show ?thesis by (simp add: Euler_step_def)
  qed
  ultimately show ?thesis by blast
qed

text \<open>The witness is a grid that is not equally spaced: the step stays \<open>t[1] - t[0] = 1\<close>.\<close>

theorem Euler_recurrence_witness:
  "2 \<le> length [0, 1, 3 :: real]
     \<and> (\<exists>x. Euler sum_rhs [0, 1, 3] 1 = Inr x \<and> length x = 3
              \<and> x ! 0 = 1 \<and> x ! 1 = 2 \<and> x ! 2 = 5)"
proof -
  have l: "2 \<le> length [0, 1, 3 :: real]" by simp
  from Euler_recurrence [OF l, of sum_rhs 1]
  obtain x where run: "Euler sum_rhs [0, 1, 3] 1 = Inr x" and len: "length x = 3"
    and x0: "x ! 0 = 1"
    and rec: "\<forall>i\<le>1. x ! (i + 1) = x ! i + ([0, 1, 3] ! 1 - [0, 1, 3] ! 0) * sum_rhs (x ! i) ([0, 1, 3] ! i)"
    by auto
  from rec [rule_format, of 0] x0 have x1: "x ! 1 = 2"
    by (simp add: sum_rhs_def)
  from rec [rule_format, of 1] x1 have x2: "x ! 2 = 5"
    by (simp add: sum_rhs_def numeral_2_eq_2)
  from l run len x0 x1 x2 show ?thesis by blast
qed

subsection \<open>C3: the RK2 recurrence\<close>

text \<open>
  C3: on a grid \<open>t\<close> of length \<open>N \<ge> 2\<close>, \<open>RK2 f t x0\<close> returns a sequence \<open>x\<close> of length
  \<open>N\<close> with \<open>x[0] = x0\<close> and, for every \<open>i\<close> from 0 to \<open>N-2\<close>, \<open>x[i+1] = x[i] + k2\<close> where
  \<open>k1 = h * f(x[i], t[i])\<close>, \<open>k2 = h * f(x[i] + k1/2, t[i] + h/2)\<close> and \<open>h = t[1] - t[0]\<close>.
\<close>

theorem RK2_recurrence:
  assumes "2 \<le> length t"
  shows "\<exists>x. RK2 f t x0 = Inr x \<and> length x = length t \<and> x ! 0 = x0
           \<and> (\<forall>i\<le>length t - 2.
                 let h = t ! 1 - t ! 0;
                     k1 = h * f (x ! i) (t ! i);
                     k2 = h * f (x ! i + k1 / 2) (t ! i + h / 2)
                 in x ! (i + 1) = x ! i + k2)"
proof -
  from integrate_returns [OF assms, of "RK2_step f" x0]
  obtain x where "RK2 f t x0 = Inr x" and "length x = length t" and "x ! 0 = x0"
    and rec: "\<forall>i. Suc i < length t \<longrightarrow> x ! Suc i = RK2_step f (t ! 1 - t ! 0) (x ! i) (t ! i)"
    by (auto simp add: RK2_integrate)
  moreover have "let h = t ! 1 - t ! 0;
                     k1 = h * f (x ! i) (t ! i);
                     k2 = h * f (x ! i + k1 / 2) (t ! i + h / 2)
                 in x ! (i + 1) = x ! i + k2"
    if "i \<le> length t - 2" for i
  proof -
    from that assms have "Suc i < length t" by simp
    with rec show ?thesis by (simp add: RK2_step_def Let_def)
  qed
  ultimately show ?thesis by blast
qed

theorem RK2_recurrence_witness:
  "2 \<le> length [0, 1, 3 :: real]
     \<and> (\<exists>x. RK2 sum_rhs [0, 1, 3] 1 = Inr x \<and> length x = 3
              \<and> x ! 0 = 1 \<and> x ! 1 = 3 \<and> x ! 2 = 19 / 2)"
proof -
  have l: "2 \<le> length [0, 1, 3 :: real]" by simp
  from RK2_recurrence [OF l, of sum_rhs 1]
  obtain x where run: "RK2 sum_rhs [0, 1, 3] 1 = Inr x" and len: "length x = 3"
    and x0: "x ! 0 = 1"
    and rec: "\<forall>i\<le>1.
                 let h = [0, 1, 3] ! 1 - [0, 1, 3] ! 0;
                     k1 = h * sum_rhs (x ! i) ([0, 1, 3] ! i);
                     k2 = h * sum_rhs (x ! i + k1 / 2) ([0, 1, 3] ! i + h / 2)
                 in x ! (i + 1) = x ! i + k2"
    by auto
  from rec [rule_format, of 0] x0 have x1: "x ! 1 = 3"
    by (simp add: sum_rhs_def Let_def)
  from rec [rule_format, of 1] x1 have x2: "x ! 2 = 19 / 2"
    by (simp add: sum_rhs_def Let_def numeral_2_eq_2)
  from l run len x0 x1 x2 show ?thesis by blast
qed

subsection \<open>C4: the RK4 recurrence\<close>

text \<open>
  C4: on a grid \<open>t\<close> of length \<open>N \<ge> 2\<close>, \<open>RK4 f t x0\<close> returns a sequence \<open>x\<close> of length
  \<open>N\<close> with \<open>x[0] = x0\<close> and, for every \<open>i\<close> from 0 to \<open>N-2\<close>,
  \<open>x[i+1] = x[i] + (1/6) (k1 + 2 k2 + 2 k3 + k4)\<close> where \<open>k1 = h * f(x[i], t[i])\<close>,
  \<open>k2 = h * f(x[i] + k1/2, t[i] + h/2)\<close>, \<open>k3 = h * f(x[i] + k2/2, t[i] + h/2)\<close>,
  \<open>k4 = h * f(x[i] + k3, t[i] + h)\<close> and \<open>h = t[1] - t[0]\<close>.
\<close>

theorem RK4_recurrence:
  assumes "2 \<le> length t"
  shows "\<exists>x. RK4 f t x0 = Inr x \<and> length x = length t \<and> x ! 0 = x0
           \<and> (\<forall>i\<le>length t - 2.
                 let h = t ! 1 - t ! 0;
                     k1 = h * f (x ! i) (t ! i);
                     k2 = h * f (x ! i + k1 / 2) (t ! i + h / 2);
                     k3 = h * f (x ! i + k2 / 2) (t ! i + h / 2);
                     k4 = h * f (x ! i + k3) (t ! i + h)
                 in x ! (i + 1) = x ! i + (1 / 6) * (k1 + 2 * k2 + 2 * k3 + k4))"
proof -
  from integrate_returns [OF assms, of "RK4_step f" x0]
  obtain x where "RK4 f t x0 = Inr x" and "length x = length t" and "x ! 0 = x0"
    and rec: "\<forall>i. Suc i < length t \<longrightarrow> x ! Suc i = RK4_step f (t ! 1 - t ! 0) (x ! i) (t ! i)"
    by (auto simp add: RK4_integrate)
  moreover have "let h = t ! 1 - t ! 0;
                     k1 = h * f (x ! i) (t ! i);
                     k2 = h * f (x ! i + k1 / 2) (t ! i + h / 2);
                     k3 = h * f (x ! i + k2 / 2) (t ! i + h / 2);
                     k4 = h * f (x ! i + k3) (t ! i + h)
                 in x ! (i + 1) = x ! i + (1 / 6) * (k1 + 2 * k2 + 2 * k3 + k4)"
    if "i \<le> length t - 2" for i
  proof -
    from that assms have "Suc i < length t" by simp
    with rec show ?thesis by (simp add: RK4_step_def Let_def)
  qed
  ultimately show ?thesis by blast
qed

theorem RK4_recurrence_witness:
  "2 \<le> length [0, 2, 3 :: real]
     \<and> (\<exists>x. RK4 sum_rhs [0, 2, 3] 0 = Inr x \<and> length x = 3
              \<and> x ! 0 = 0 \<and> x ! 1 = 4 \<and> x ! 2 = 44)"
proof -
  have l: "2 \<le> length [0, 2, 3 :: real]" by simp
  from RK4_recurrence [OF l, of sum_rhs 0]
  obtain x where run: "RK4 sum_rhs [0, 2, 3] 0 = Inr x" and len: "length x = 3"
    and x0: "x ! 0 = 0"
    and rec: "\<forall>i\<le>1.
                 let h = [0, 2, 3] ! 1 - [0, 2, 3] ! 0;
                     k1 = h * sum_rhs (x ! i) ([0, 2, 3] ! i);
                     k2 = h * sum_rhs (x ! i + k1 / 2) ([0, 2, 3] ! i + h / 2);
                     k3 = h * sum_rhs (x ! i + k2 / 2) ([0, 2, 3] ! i + h / 2);
                     k4 = h * sum_rhs (x ! i + k3) ([0, 2, 3] ! i + h)
                 in x ! (i + 1) = x ! i + (1 / 6) * (k1 + 2 * k2 + 2 * k3 + k4)"
    by auto
  from rec [rule_format, of 0] x0 have x1: "x ! 1 = 4"
    by (simp add: sum_rhs_def Let_def)
  from rec [rule_format, of 1] x1 have x2: "x ! 2 = 44"
    by (simp add: sum_rhs_def Let_def numeral_2_eq_2)
  from l run len x0 x1 x2 show ?thesis by blast
qed

subsection \<open>C5: the first entry\<close>

text \<open>
  C5, as stated: for any non-empty grid the first entry of the returned sequence is \<open>x0\<close>.
  The grid \<open>[5]\<close> is not empty, and RK4 returns no sequence on it: it raises IndexError.
\<close>

theorem first_entry_counterexample:
  "length [5 :: real] = 1 \<and> RK4 sum_rhs [5] 7 = Inl IndexError"
  by (simp add: RK4_def getitem_def)

text \<open>
  C5, amended: for any grid of at least two points, any \<open>x0\<close> and any \<open>f\<close>, each of Euler,
  RK2 and RK4 returns a sequence whose first entry is \<open>x0\<close>.
\<close>

theorem first_entry_is_x0:
  assumes "2 \<le> length t"
  shows "(\<exists>x. Euler f t x0 = Inr x \<and> x ! 0 = x0)
           \<and> (\<exists>x. RK2 f t x0 = Inr x \<and> x ! 0 = x0)
           \<and> (\<exists>x. RK4 f t x0 = Inr x \<and> x ! 0 = x0)"
  using integrate_returns [OF assms, of "Euler_step f" x0]
    integrate_returns [OF assms, of "RK2_step f" x0]
    integrate_returns [OF assms, of "RK4_step f" x0]
  unfolding Euler_integrate RK2_integrate RK4_integrate by blast

theorem first_entry_is_x0_witness:
  "2 \<le> length [0, 1 :: real]
     \<and> (\<exists>x. Euler sum_rhs [0, 1] 7 = Inr x \<and> x ! 0 = 7)
     \<and> (\<exists>x. RK2 sum_rhs [0, 1] 7 = Inr x \<and> x ! 0 = 7)
     \<and> (\<exists>x. RK4 sum_rhs [0, 1] 7 = Inr x \<and> x ! 0 = 7)"
  using first_entry_is_x0 [of "[0, 1]" sum_rhs 7] by simp

subsection \<open>C6: the length of the result\<close>

text \<open>
  C6, as stated: for every grid the returned sequence is as long as the grid. On the empty
  grid RK2 returns no sequence, of length 0 or any other: it raises IndexError.
\<close>

theorem result_length_counterexample:
  "RK2 sum_rhs [] 7 = Inl IndexError \<and> RK2 sum_rhs [] 7 \<noteq> Inr []"
  by (simp add: RK2_def getitem_def)

text \<open>
  C6, amended: for every grid \<open>t\<close> of at least two points, each of Euler, RK2 and RK4
  returns a sequence of the length of \<open>t\<close>; and on any grid, a sequence that is returned has
  the length of \<open>t\<close>.
\<close>

theorem result_length:
  "(2 \<le> length t \<longrightarrow>
      (\<exists>x. Euler f t x0 = Inr x \<and> length x = length t)
      \<and> (\<exists>x. RK2 f t x0 = Inr x \<and> length x = length t)
      \<and> (\<exists>x. RK4 f t x0 = Inr x \<and> length x = length t))
   \<and> (\<forall>x. Euler f t x0 = Inr x \<or> RK2 f t x0 = Inr x \<or> RK4 f t x0 = Inr x
          \<longrightarrow> length x = length t)"
proof (cases "2 \<le> length t")
  case True
  from integrate_returns [OF True, of "Euler_step f" x0]
    integrate_returns [OF True, of "RK2_step f" x0]
    integrate_returns [OF True, of "RK4_step f" x0]
  show ?thesis unfolding Euler_integrate RK2_integrate RK4_integrate by auto
next
  case False
  then have "length t < 2" by simp
  then show ?thesis
    by (simp add: Euler_integrate RK2_integrate RK4_integrate integrate_raises)
qed

theorem result_length_witness:
  "2 \<le> length [0, 1, 3 :: real]
     \<and> (\<exists>x. Euler sum_rhs [0, 1, 3] 7 = Inr x \<and> length x = 3)
     \<and> (\<exists>x. RK2 sum_rhs [0, 1, 3] 7 = Inr x \<and> length x = 3)
     \<and> (\<exists>x. RK4 sum_rhs [0, 1, 3] 7 = Inr x \<and> length x = 3)"
  using result_length [of "[0, 1, 3]" sum_rhs 7] by (simp add: numeral_3_eq_3)

subsection \<open>C7: constant right-hand side\<close>




subsection \<open>C8: zero right-hand side\<close>

text \<open>
  C8, as stated: for \<open>f(x, t) = 0\<close>, on every grid of length \<open>N \<ge> 2\<close> every entry of the
  result is \<open>x0\<close>. On the grid \<open>[-2^1023, 2^1023]\<close> of two float64 values the step
  \<open>t[1] - t[0]\<close> overflows to infinity, its product with 0 is nan, and each integrator
  returns \<open>[7, nan]\<close> for \<open>x0 = 7\<close>.
\<close>

theorem zero_rhs_counterexample:
  "valid (Fin (- (2 ^ 1023))) \<and> valid (Fin (2 ^ 1023)) \<and> valid (Fin 7)
   \<and> fsub (Fin (2 ^ 1023)) (Fin (- (2 ^ 1023))) = PInf
   \<and> Euler_f64 (const_rhs_f64 (Fin 0)) [Fin (- (2 ^ 1023)), Fin (2 ^ 1023)] (Fin 7)
      = Inr [Fin 7, NaN]
   \<and> RK2_f64 (const_rhs_f64 (Fin 0)) [Fin (- (2 ^ 1023)), Fin (2 ^ 1023)] (Fin 7)
      = Inr [Fin 7, NaN]
   \<and> RK4_f64 (const_rhs_f64 (Fin 0)) [Fin (- (2 ^ 1023)), Fin (2 ^ 1023)] (Fin 7)
      = Inr [Fin 7, NaN]"
proof -
  have h: "fsub (Fin (2 ^ 1023)) (Fin (- (2 ^ 1023))) = PInf"
    using fround_2p1024 by (simp add: fsub_def)
  have "Euler_f64 (const_rhs_f64 (Fin 0)) [Fin (- (2 ^ 1023)), Fin (2 ^ 1023)] (Fin 7)
      = Inr [Fin 7, NaN]"
    by (simp add: Euler_f64_def Euler_body_f64_def Euler_step_f64_def getitem_def setitem_def
        zeros_f64_def const_rhs_f64_def h [simplified] Let_def)
  moreover have "RK2_f64 (const_rhs_f64 (Fin 0)) [Fin (- (2 ^ 1023)), Fin (2 ^ 1023)] (Fin 7)
      = Inr [Fin 7, NaN]"
    by (simp add: RK2_f64_def RK2_body_f64_def RK2_step_f64_def getitem_def setitem_def
        zeros_f64_def const_rhs_f64_def h [simplified] Let_def)
  moreover have "RK4_f64 (const_rhs_f64 (Fin 0)) [Fin (- (2 ^ 1023)), Fin (2 ^ 1023)] (Fin 7)
      = Inr [Fin 7, NaN]"
    by (simp add: RK4_f64_def RK4_body_f64_def RK4_step_f64_def getitem_def setitem_def
        zeros_f64_def const_rhs_f64_def h [simplified] Let_def fround_sixth)
  ultimately show ?thesis
    using h fround_2p1023 fround_m2p1023 fround_7 by simp
qed

text \<open>
  C8, amended: for \<open>f(x, t) = 0\<close>, on every grid of length \<open>N \<ge> 2\<close> whose step
  \<open>h = t[1] - t[0]\<close> is finite in float64, and for every float64 \<open>x0\<close> other than nan, each of
  Euler, RK2 and RK4 returns the sequence of \<open>N\<close> entries all equal to \<open>x0\<close>.
\<close>

theorem zero_rhs_constant_f64:
  assumes "2 \<le> length t" and "is_fin (fsub (t ! 1) (t ! 0))" and "valid x0" and "x0 \<noteq> NaN"
  shows "Euler_f64 (\<lambda>x t. Fin 0) t x0 = Inr (replicate (length t) x0)
           \<and> RK2_f64 (\<lambda>x t. Fin 0) t x0 = Inr (replicate (length t) x0)
           \<and> RK4_f64 (\<lambda>x t. Fin 0) t x0 = Inr (replicate (length t) x0)"
  unfolding Euler_f64_integrate RK2_f64_integrate RK4_f64_integrate
  by (intro conjI integrate_f64_fixed assms(1) zero_rhs_steps assms(2) assms(3))

theorem zero_rhs_constant_f64_witness:
  "2 \<le> length [Fin 0, Fin 1, Fin 3] \<and> is_fin (fsub ([Fin 0, Fin 1, Fin 3] ! 1) ([Fin 0, Fin 1, Fin 3] ! 0))
     \<and> valid (Fin 7) \<and> Fin 7 \<noteq> NaN
     \<and> Euler_f64 (\<lambda>x t. Fin 0) [Fin 0, Fin 1, Fin 3] (Fin 7) = Inr [Fin 7, Fin 7, Fin 7]
     \<and> RK2_f64 (\<lambda>x t. Fin 0) [Fin 0, Fin 1, Fin 3] (Fin 7) = Inr [Fin 7, Fin 7, Fin 7]
     \<and> RK4_f64 (\<lambda>x t. Fin 0) [Fin 0, Fin 1, Fin 3] (Fin 7) = Inr [Fin 7, Fin 7, Fin 7]"
  using zero_rhs_constant_f64 [of "[Fin 0, Fin 1, Fin 3]" "Fin 7"]
  by (simp add: fsub_def fround_1 fround_7 numeral_3_eq_3)

subsection \<open>C9: step size zero\<close>




subsection \<open>C10: which grid points an entry depends on\<close>

text \<open>
  C10: for each of Euler, RK2 and RK4 and every \<open>i\<close>, two grids \<open>u\<close> and \<open>v\<close> of length at
  least \<open>max(i+1, 2)\<close> that agree at the indices 0 to \<open>max(i-1, 1)\<close> give, with the same \<open>f\<close>
  and \<open>x0\<close>, trajectories that agree at every index 0 to \<open>i\<close>; in particular, on a grid of
  length \<open>N \<ge> 3\<close>, replacing the last point \<open>t[N-1]\<close> by any other value changes no entry of
  the result.
\<close>

theorem grid_dependence:
  "(max (i + 1) 2 \<le> length u \<and> max (i + 1) 2 \<le> length v
      \<and> (\<forall>j\<le>max (i - 1) 1. u ! j = v ! j) \<longrightarrow>
      (\<exists>xs ys. Euler f u x0 = Inr xs \<and> Euler f v x0 = Inr ys \<and> (\<forall>j\<le>i. xs ! j = ys ! j))
      \<and> (\<exists>xs ys. RK2 f u x0 = Inr xs \<and> RK2 f v x0 = Inr ys \<and> (\<forall>j\<le>i. xs ! j = ys ! j))
      \<and> (\<exists>xs ys. RK4 f u x0 = Inr xs \<and> RK4 f v x0 = Inr ys \<and> (\<forall>j\<le>i. xs ! j = ys ! j)))
   \<and> (3 \<le> length t \<longrightarrow>
        Euler f (t[length t - 1 := z]) x0 = Euler f t x0
        \<and> RK2 f (t[length t - 1 := z]) x0 = RK2 f t x0
        \<and> RK4 f (t[length t - 1 := z]) x0 = RK4 f t x0)"
  unfolding Euler_integrate RK2_integrate RK4_integrate
  using integrate_agree_upto [of i u v] integrate_last_point [of t]
  by simp

theorem grid_dependence_witness:
  "max (3 + 1) 2 \<le> length [0, 1, 2, 9 :: real] \<and> max (3 + 1) 2 \<le> length [0, 1, 2, 5, 8 :: real]
   \<and> [0, 1, 2, 9 :: real] ! 0 = [0, 1, 2, 5, 8] ! 0
   \<and> [0, 1, 2, 9 :: real] ! 1 = [0, 1, 2, 5, 8] ! 1
   \<and> [0, 1, 2, 9 :: real] ! 2 = [0, 1, 2, 5, 8] ! 2
   \<and> (\<exists>xs ys. Euler sum_rhs [0, 1, 2, 9] 1 = Inr xs \<and> Euler sum_rhs [0, 1, 2, 5, 8] 1 = Inr ys
          \<and> xs ! 0 = ys ! 0 \<and> xs ! 1 = ys ! 1 \<and> xs ! 2 = ys ! 2 \<and> xs ! 3 = ys ! 3)
   \<and> (\<exists>xs ys. RK2 sum_rhs [0, 1, 2, 9] 1 = Inr xs \<and> RK2 sum_rhs [0, 1, 2, 5, 8] 1 = Inr ys
          \<and> xs ! 0 = ys ! 0 \<and> xs ! 1 = ys ! 1 \<and> xs ! 2 = ys ! 2 \<and> xs ! 3 = ys ! 3)
   \<and> (\<exists>xs ys. RK4 sum_rhs [0, 1, 2, 9] 1 = Inr xs \<and> RK4 sum_rhs [0, 1, 2, 5, 8] 1 = Inr ys
          \<and> xs ! 0 = ys ! 0 \<and> xs ! 1 = ys ! 1 \<and> xs ! 2 = ys ! 2 \<and> xs ! 3 = ys ! 3)
   \<and> 3 \<le> length [0, 1, 5 :: real]
   \<and> Euler sum_rhs [0, 1, 9] 1 = Euler sum_rhs [0, 1, 5] 1
   \<and> RK2 sum_rhs [0, 1, 9] 1 = RK2 sum_rhs [0, 1, 5] 1
   \<and> RK4 sum_rhs [0, 1, 9] 1 = RK4 sum_rhs [0, 1, 5] 1"
proof -
  have agree: "\<forall>j\<le>max (3 - 1) 1. [0, 1, 2, 9 :: real] ! j = [0, 1, 2, 5, 8] ! j"
    by (simp add: nth_Cons')
  have lens: "max (3 + 1) 2 \<le> length [0, 1, 2, 9 :: real]"
      "max (3 + 1) 2 \<le> length [0, 1, 2, 5, 8 :: real]"
    by simp_all
  have upd: "[0, 1, 5 :: real][length [0, 1, 5 :: real] - 1 := 9] = [0, 1, 9]"
    by simp
  have idx: "(\<forall>j\<le>3. P j) \<Longrightarrow> P 0 \<and> P 1 \<and> P 2 \<and> P (3 :: nat)" for P
    by simp
  from grid_dependence [of 3 "[0, 1, 2, 9]" "[0, 1, 2, 5, 8]" sum_rhs 1 "[0, 1, 5]" 9]
    agree lens upd
  have "(\<exists>xs ys. Euler sum_rhs [0, 1, 2, 9] 1 = Inr xs \<and> Euler sum_rhs [0, 1, 2, 5, 8] 1 = Inr ys
          \<and> (\<forall>j\<le>3. xs ! j = ys ! j))
   \<and> (\<exists>xs ys. RK2 sum_rhs [0, 1, 2, 9] 1 = Inr xs \<and> RK2 sum_rhs [0, 1, 2, 5, 8] 1 = Inr ys
          \<and> (\<forall>j\<le>3. xs ! j = ys ! j))
   \<and> (\<exists>xs ys. RK4 sum_rhs [0, 1, 2, 9] 1 = Inr xs \<and> RK4 sum_rhs [0, 1, 2, 5, 8] 1 = Inr ys
          \<and> (\<forall>j\<le>3. xs ! j = ys ! j))
   \<and> Euler sum_rhs [0, 1, 9] 1 = Euler sum_rhs [0, 1, 5] 1
   \<and> RK2 sum_rhs [0, 1, 9] 1 = RK2 sum_rhs [0, 1, 5] 1
   \<and> RK4 sum_rhs [0, 1, 9] 1 = RK4 sum_rhs [0, 1, 5] 1"
    by simp
  then show ?thesis
    by (auto dest!: idx)
qed

end
